theory Spec2Isabelle
  imports Main "HOL-Library.Word"
begin

unbundle bit_operations_syntax

section \<open>The WebP decoder's test helpers\<close>

text \<open>
  The repository snapshot holds the test file of the \<open>webp\<close> package: the helper
  \<open>hex\<close>, the two decoding tests and the benchmark driver. The definitions below
  follow that file function by function. Go's \<open>[]byte\<close> is a list of 8-bit words,
  Go's \<open>string\<close> a list of characters.
\<close>

type_synonym byte = "8 word"

subsection \<open>\<open>hex\<close>: dotted hexadecimal dump\<close>

text \<open>
  \<^verbatim>\<open>
  func hex(x []byte) string {
      buf := new(bytes.Buffer)
      for len(x) > 0 {
          n := len(x)
          if n > 16 {
              n = 16
          }
          fmt.Fprintf(buf, " . % x", x[:n])
          x = x[n:]
      }
      return buf.String()
  }
  \<close>
  The verb \<open>% x\<close> of Go's \<open>fmt\<close> prints a byte slice as two lower-case
  hexadecimal digits per byte, with one space between consecutive bytes.
\<close>

definition hex_digit :: "nat \<Rightarrow> char" where
  "hex_digit d = ''0123456789abcdef'' ! d"

definition hex_byte :: "byte \<Rightarrow> string" where
  "hex_byte b = [hex_digit (unat b div 16), hex_digit (unat b mod 16)]"

fun fmt_spaced_hex :: "byte list \<Rightarrow> string" where
  "fmt_spaced_hex [] = []"
| "fmt_spaced_hex [b] = hex_byte b"
| "fmt_spaced_hex (b # c # bs) = hex_byte b @ '' '' @ fmt_spaced_hex (c # bs)"

text \<open>One call \<open>fmt.Fprintf(buf, " . % x", g)\<close>: the text appended to the buffer.\<close>

definition fprintf_group :: "byte list \<Rightarrow> string" where
  "fprintf_group g = '' . '' @ fmt_spaced_hex g"

text \<open>
  The loop of \<open>hex\<close>, with the buffer as an accumulator. The slice \<open>x[:n]\<close> is
  \<open>take n x\<close> and \<open>x[n:]\<close> is \<open>drop n x\<close>; both are in range because
  \<open>n \<le> len(x)\<close>.
\<close>

function hex_loop :: "string \<Rightarrow> byte list \<Rightarrow> string" where
  "hex_loop buf x =
     (if length x > 0 then
        (let n = length x;
             n = (if n > 16 then 16 else n)
         in hex_loop (buf @ fprintf_group (take n x)) (drop n x))
      else buf)"
  by pat_completeness auto
termination
  by (relation "measure (\<lambda>(buf, x). length x)") (auto simp: Let_def)

definition hex :: "byte list \<Rightarrow> string" where
  "hex x = hex_loop [] x"

text \<open>
  The slices \<open>x[:n]\<close> that the successive iterations of the loop hand to
  \<open>Fprintf\<close>, in order: the same loop, recording its argument instead of the text.
\<close>

function hex_slices :: "byte list \<Rightarrow> byte list list" where
  "hex_slices x =
     (if length x > 0 then
        (let n = length x;
             n = (if n > 16 then 16 else n)
         in take n x # hex_slices (drop n x))
      else [])"
  by pat_completeness auto
termination
  by (relation "measure length") (auto simp: Let_def)

declare hex_loop.simps [simp del] hex_slices.simps [simp del]

subsection \<open>The images that \<open>TestDecodeVP8L\<close> compares\<close>

text \<open>
  The test decodes a reference PNG into an \<open>image.Image\<close> and asserts its dynamic
  type. \<open>image.NRGBA\<close> and \<open>image.RGBA\<close> are structs of Go's standard library
  with the same three fields; they differ only in how their pixels are read back as
  colours. The structs are one record, the interface value a datatype with one
  constructor per dynamic type the test asks for.

  Go's \<open>int\<close> is modelled by \<open>int\<close>: coordinates, strides and offsets of an image
  that fits in memory stay far from the 64-bit limits.
\<close>

record point =
  X :: int
  Y :: int

record rectangle =
  MinP :: point
  MaxP :: point

record pixbuf =
  Pix :: "byte list"
  Stride :: int
  Rect :: rectangle

datatype image = NRGBA pixbuf | RGBA pixbuf | OtherImage

datatype failure = IndexOutOfRange | Fatalf string

text \<open>
  \<^verbatim>\<open>
  func (r Rectangle) Dx() int { return r.Max.X - r.Min.X }
  func (r Rectangle) Empty() bool { return r.Min.X >= r.Max.X || r.Min.Y >= r.Max.Y }
  func (p Point) In(r Rectangle) bool {
      return r.Min.X <= p.X && p.X < r.Max.X && r.Min.Y <= p.Y && p.Y < r.Max.Y
  }
  \<close>
\<close>

definition Dx :: "rectangle \<Rightarrow> int" where
  "Dx r = X (MaxP r) - X (MinP r)"

definition Empty :: "rectangle \<Rightarrow> bool" where
  "Empty r \<longleftrightarrow> X (MinP r) \<ge> X (MaxP r) \<or> Y (MinP r) \<ge> Y (MaxP r)"

definition In :: "point \<Rightarrow> rectangle \<Rightarrow> bool" where
  "In p r \<longleftrightarrow> X (MinP r) \<le> X p \<and> X p < X (MaxP r) \<and> Y (MinP r) \<le> Y p \<and> Y p < Y (MaxP r)"

text \<open>
  Colours. \<open>color.RGBA\<close> holds alpha-premultiplied 8-bit channels, \<open>color.NRGBA\<close>
  non-premultiplied ones. The only method of the \<open>color.Color\<close> interface, and so the
  colour a value denotes, is \<open>RGBA()\<close>: four \<open>uint32\<close> alpha-premultiplied channels.
  \<^verbatim>\<open>
  func (c RGBA) RGBA() (r, g, b, a uint32) {
      r = uint32(c.R)
      r |= r << 8
      ...
      a = uint32(c.A)
      a |= a << 8
      return
  }
  func (c NRGBA) RGBA() (r, g, b, a uint32) {
      r = uint32(c.R)
      r |= r << 8
      r *= uint32(c.A)
      r /= 0xff
      ...
      a = uint32(c.A)
      a |= a << 8
      return
  }
  \<close>
\<close>

datatype color = ColorRGBA byte byte byte byte | ColorNRGBA byte byte byte byte

definition widen :: "byte \<Rightarrow> 32 word" where
  "widen c = (let r = ucast c in r OR push_bit 8 r)"

definition premultiply :: "byte \<Rightarrow> byte \<Rightarrow> 32 word" where
  "premultiply c a = (let r = widen c; r = r * ucast a in r div 0xff)"

fun color_RGBA :: "color \<Rightarrow> 32 word \<times> 32 word \<times> 32 word \<times> 32 word" where
  "color_RGBA (ColorRGBA r g b a) = (widen r, widen g, widen b, widen a)"
| "color_RGBA (ColorNRGBA r g b a) =
     (premultiply r a, premultiply g a, premultiply b a, widen a)"

text \<open>
  Reading a pixel. An index outside the slice panics in Go; the model returns
  \<open>Inl IndexOutOfRange\<close>.
  \<^verbatim>\<open>
  func (p *RGBA) PixOffset(x, y int) int {
      return (y-p.Rect.Min.Y)*p.Stride + (x-p.Rect.Min.X)*4
  }
  func (p *RGBA) At(x, y int) color.Color {
      if !(Point{x, y}.In(p.Rect)) {
          return color.RGBA{}
      }
      i := p.PixOffset(x, y)
      return color.RGBA{p.Pix[i+0], p.Pix[i+1], p.Pix[i+2], p.Pix[i+3]}
  }
  \<close>
  \<open>NRGBA.PixOffset\<close> and \<open>NRGBA.At\<close> are the same with \<open>color.NRGBA\<close>.
\<close>

definition PixOffset :: "pixbuf \<Rightarrow> int \<Rightarrow> int \<Rightarrow> int" where
  "PixOffset p x y = (y - Y (MinP (Rect p))) * Stride p + (x - X (MinP (Rect p))) * 4"

definition pix4 :: "byte list \<Rightarrow> int \<Rightarrow> failure + byte \<times> byte \<times> byte \<times> byte" where
  "pix4 pix i =
     (if 0 \<le> i \<and> i + 3 < int (length pix)
      then Inr (pix ! nat i, pix ! nat (i + 1), pix ! nat (i + 2), pix ! nat (i + 3))
      else Inl IndexOutOfRange)"

fun At :: "image \<Rightarrow> int \<Rightarrow> int \<Rightarrow> failure + color" where
  "At (RGBA p) x y =
     (if \<not> In \<lparr>X = x, Y = y\<rparr> (Rect p) then Inr (ColorRGBA 0 0 0 0)
      else (case pix4 (Pix p) (PixOffset p x y) of
              Inl e \<Rightarrow> Inl e
            | Inr (r, g, b, a) \<Rightarrow> Inr (ColorRGBA r g b a)))"
| "At (NRGBA p) x y =
     (if \<not> In \<lparr>X = x, Y = y\<rparr> (Rect p) then Inr (ColorNRGBA 0 0 0 0)
      else (case pix4 (Pix p) (PixOffset p x y) of
              Inl e \<Rightarrow> Inl e
            | Inr (r, g, b, a) \<Rightarrow> Inr (ColorNRGBA r g b a)))"
| "At OtherImage x y = Inr (ColorRGBA 0 0 0 0)"

text \<open>The colour an image denotes at a point: \<open>img.At(x, y).RGBA()\<close>.\<close>

definition colour_at ::
  "image \<Rightarrow> int \<Rightarrow> int \<Rightarrow> failure + 32 word \<times> 32 word \<times> 32 word \<times> 32 word" where
  "colour_at img x y = (case At img x y of Inl e \<Rightarrow> Inl e | Inr c \<Rightarrow> Inr (color_RGBA c))"

text \<open>
  \<^verbatim>\<open>
  func (p *RGBA) Opaque() bool {
      if p.Rect.Empty() {
          return true
      }
      i0, i1 := 3, p.Rect.Dx()*4
      for y := p.Rect.Min.Y; y < p.Rect.Max.Y; y++ {
          for i := i0; i < i1; i += 4 {
              if p.Pix[i] != 0xff {
                  return false
              }
          }
          i0 += p.Stride
          i1 += p.Stride
      }
      return true
  }
  \<close>
  The inner loop is \<open>opaque_row\<close>, the outer one \<open>opaque_rows\<close>.
\<close>

function opaque_row :: "byte list \<Rightarrow> int \<Rightarrow> int \<Rightarrow> failure + bool" where
  "opaque_row pix i i1 =
     (if i < i1 then
        (if 0 \<le> i \<and> i < int (length pix) then
           (if pix ! nat i \<noteq> 0xff then Inr False else opaque_row pix (i + 4) i1)
         else Inl IndexOutOfRange)
      else Inr True)"
  by pat_completeness auto
termination
  by (relation "measure (\<lambda>(pix, i, i1). nat (i1 - i))") auto

function opaque_rows :: "byte list \<Rightarrow> int \<Rightarrow> int \<Rightarrow> int \<Rightarrow> int \<Rightarrow> int \<Rightarrow> failure + bool" where
  "opaque_rows pix stride y max_y i0 i1 =
     (if y < max_y then
        (case opaque_row pix i0 i1 of
           Inl e \<Rightarrow> Inl e
         | Inr False \<Rightarrow> Inr False
         | Inr True \<Rightarrow> opaque_rows pix stride (y + 1) max_y (i0 + stride) (i1 + stride))
      else Inr True)"
  by pat_completeness auto
termination
  by (relation "measure (\<lambda>(pix, stride, y, max_y, i0, i1). nat (max_y - y))") auto

definition Opaque :: "pixbuf \<Rightarrow> failure + bool" where
  "Opaque p =
     (if Empty (Rect p) then Inr True
      else opaque_rows (Pix p) (Stride p) (Y (MinP (Rect p))) (Y (MaxP (Rect p)))
             3 (Dx (Rect p) * 4))"

text \<open>
  The reference image as the test uses it (\<open>m1\<close>):
  \<^verbatim>\<open>
  m1, ok := img1.(*image.NRGBA)
  if !ok {
      rgba1, ok := img1.(*image.RGBA)
      if !ok {
          t.Fatalf("%s: PNG image is %T, want *image.NRGBA", tc, img1)
      }
      if !rgba1.Opaque() {
          t.Fatalf("%s: PNG image is non-opaque *image.RGBA, want *image.NRGBA", tc)
      }
      // The image is fully opaque, so we can re-interpret the RGBA pixels
      // as NRGBA pixels.
      m1 = &image.NRGBA{
          Pix:    rgba1.Pix,
          Stride: rgba1.Stride,
          Rect:   rgba1.Rect,
      }
  }
  \<close>
\<close>

definition reference_nrgba :: "image \<Rightarrow> failure + image" where
  "reference_nrgba img1 =
     (case img1 of
        NRGBA m1 \<Rightarrow> Inr (NRGBA m1)
      | RGBA rgba1 \<Rightarrow>
          (case Opaque rgba1 of
             Inl e \<Rightarrow> Inl e
           | Inr False \<Rightarrow> Inl (Fatalf ''PNG image is non-opaque *image.RGBA, want *image.NRGBA'')
           | Inr True \<Rightarrow>
               Inr (NRGBA \<lparr>Pix = Pix rgba1, Stride = Stride rgba1, Rect = Rect rgba1\<rparr>))
      | OtherImage \<Rightarrow> Inl (Fatalf ''PNG image is not *image.NRGBA''))"

declare opaque_row.simps [simp del] opaque_rows.simps [simp del]

section \<open>The container demultiplexer\<close>

text \<open>
  The decoder that the tests call (\<open>Decode\<close>, \<open>DecodeConfig\<close>) is not among the
  files of the snapshot. Its container layer is described operationally by the
  specification (sections 4.1, 6 and 7), and is modelled here from that description.
  The byte source is the list of the bytes it will deliver; a read that asks for more
  bytes than remain fails instead of returning fewer.
\<close>

datatype decode_error = FormatError | UnsupportedFeatureError | IOError


text \<open>
  Modelled from the spec: the tag values of the container, which the decoder source
  would fix and the specification leaves unnamed ("4-byte magic", "four-character
  identifier"): the outer magic and the identifiers of the lossy and of the lossless
  image-data chunk. They are parameters of the model.
\<close>

record container_tags =
  magic_tag :: "byte list"
  lossy_id :: "byte list"
  lossless_id :: "byte list"

text \<open>
  Modelled from the spec: the read primitive of the missing decoder's byte source.
  It hands out exactly \<open>n\<close> bytes and the rest of the source, or nothing when fewer
  than \<open>n\<close> bytes remain (a truncated stream).
\<close>

definition read_bytes :: "nat \<Rightarrow> byte list \<Rightarrow> (byte list \<times> byte list) option" where
  "read_bytes n src = (if length src < n then None else Some (take n src, drop n src))"

text \<open>
  Modelled from the spec: the missing decoder's little-endian length fields ("4-byte
  little-endian total size", "4-byte little-endian payload length").
\<close>

fun le32 :: "byte list \<Rightarrow> nat" where
  "le32 [] = 0"
| "le32 (b # bs) = unat b + 256 * le32 bs"




text \<open>
  Modelled from the spec: the chunk boundaries of a stream, read off the container
  format of section 6 independently of the parser. The first chunk starts after the
  12-byte header; after a complete chunk that is not an image-data chunk, the next one
  starts behind its payload and pad byte.
\<close>

inductive chunk_at :: "container_tags \<Rightarrow> byte list \<Rightarrow> nat \<Rightarrow> bool"
  for t :: container_tags and bs :: "byte list" where
  first: "chunk_at t bs 12"
| skip: "chunk_at t bs off \<Longrightarrow> n = le32 (take 4 (drop (off + 4) bs)) \<Longrightarrow>
         off + 8 + n \<le> length bs \<Longrightarrow>
         take 4 (drop off bs) \<noteq> lossy_id t \<Longrightarrow> take 4 (drop off bs) \<noteq> lossless_id t \<Longrightarrow>
         chunk_at t bs (off + 8 + n + n mod 2)"



section \<open>Properties of \<open>hex\<close>\<close>

lemma hex_loop_slices:
  "hex_loop buf x = buf @ concat (map fprintf_group (hex_slices x))"
proof (induction buf x rule: hex_loop.induct)
  case (1 buf x)
  show ?case
  proof (cases "length x > 0")
    case True
    then show ?thesis
      using "1.IH" [OF True refl refl]
      by (subst hex_loop.simps, subst hex_slices.simps) (simp add: Let_def)
  next
    case False
    then show ?thesis
      by (subst hex_loop.simps, subst hex_slices.simps) simp
  qed
qed

lemma concat_hex_slices: "concat (hex_slices x) = x"
proof (induction x rule: hex_slices.induct)
  case (1 x)
  show ?case
  proof (cases "length x > 0")
    case True
    then show ?thesis
      using "1.IH" [OF True refl refl]
      by (subst hex_slices.simps) (simp add: Let_def)
  next
    case False
    then show ?thesis
      by (subst hex_slices.simps) simp
  qed
qed

lemma hex_slices_bounds:
  "g \<in> set (hex_slices x) \<Longrightarrow> 0 < length g \<and> length g \<le> 16"
proof (induction x rule: hex_slices.induct)
  case (1 x)
  show ?case
  proof (cases "length x > 0")
    case True
    from "1.prems" True
    have "g = take (if length x > 16 then 16 else length x) x
          \<or> g \<in> set (hex_slices (drop (if length x > 16 then 16 else length x) x))"
      by (subst (asm) hex_slices.simps) (simp add: Let_def)
    then show ?thesis
    proof
      assume "g = take (if length x > 16 then 16 else length x) x"
      with True show ?thesis by auto
    next
      assume "g \<in> set (hex_slices (drop (if length x > 16 then 16 else length x) x))"
      then show ?thesis
        using "1.IH" [OF True refl refl] by simp
    qed
  next
    case False
    with "1.prems" show ?thesis
      by (subst (asm) hex_slices.simps) simp
  qed
qed

lemma hex_slices_full:
  "Suc i < length (hex_slices x) \<Longrightarrow> length (hex_slices x ! i) = 16"
proof (induction x arbitrary: i rule: hex_slices.induct)
  case (1 x)
  let ?n = "if length x > 16 then 16 else length x"
  show ?case
  proof (cases "length x > 0")
    case True
    then have unf: "hex_slices x = take ?n x # hex_slices (drop ?n x)"
      by (subst hex_slices.simps) (simp add: Let_def)
    show ?thesis
    proof (cases i)
      case 0
      with "1.prems" unf have "hex_slices (drop ?n x) \<noteq> []"
        by auto
      then have "length (drop ?n x) > 0"
        by (subst (asm) hex_slices.simps) (auto split: if_splits)
      then have "length x > 16"
        by (auto split: if_splits)
      with unf 0 show ?thesis by simp
    next
      case (Suc j)
      with "1.prems" unf have "Suc j < length (hex_slices (drop ?n x))"
        by simp
      then have "length (hex_slices (drop ?n x) ! j) = 16"
        using "1.IH" [OF True refl refl] by simp
      with unf Suc show ?thesis by simp
    qed
  next
    case False
    with "1.prems" show ?thesis
      by (subst (asm) hex_slices.simps) simp
  qed
qed

lemma length_hex_slices: "length (hex_slices x) = (length x + 15) div 16"
proof (induction x rule: hex_slices.induct)
  case (1 x)
  show ?case
  proof (cases "length x > 0")
    case True
    let ?n = "if length x > 16 then 16 else length x"
    have unf: "length (hex_slices x) = Suc (length (hex_slices (drop ?n x)))"
      using True by (subst hex_slices.simps) (simp add: Let_def)
    have ih: "length (hex_slices (drop ?n x)) = (length (drop ?n x) + 15) div 16"
      using "1.IH" [OF True refl refl] by simp
    show ?thesis
    proof (cases "length x > 16")
      case big: True
      then have "length (drop ?n x) = length x - 16"
        by simp
      moreover from big have "Suc ((length x - 16 + 15) div 16) = (length x + 15) div 16"
        by arith
      ultimately show ?thesis
        using unf ih by simp
    next
      case small: False
      then have "length (drop ?n x) = 0"
        by simp
      moreover from small True have "(length x + 15) div 16 = 1"
        by arith
      ultimately show ?thesis
        using unf ih by simp
    qed
  next
    case False
    then show ?thesis
      by (subst hex_slices.simps) simp
  qed
qed

lemma length_hex_byte: "length (hex_byte b) = 2"
  by (simp add: hex_byte_def)

lemma length_fmt_spaced_hex: "length (fmt_spaced_hex g) = 3 * length g - 1"
  by (induction g rule: fmt_spaced_hex.induct) (simp_all add: length_hex_byte)

lemma length_fprintf_group:
  "g \<noteq> [] \<Longrightarrow> length (fprintf_group g) = 3 * length g + 2"
  by (cases g) (simp_all add: fprintf_group_def length_fmt_spaced_hex)

lemma length_concat_groups:
  "\<forall>g \<in> set gs. g \<noteq> [] \<Longrightarrow>
   length (concat (map fprintf_group gs)) = 3 * length (concat gs) + 2 * length gs"
  by (induction gs) (simp_all add: length_fprintf_group)

lemma length_hex: "length (hex x) = 3 * length x + 2 * ((length x + 15) div 16)"
proof -
  have "\<forall>g \<in> set (hex_slices x). g \<noteq> []"
    using hex_slices_bounds by fastforce
  then have "length (concat (map fprintf_group (hex_slices x)))
      = 3 * length (concat (hex_slices x)) + 2 * length (hex_slices x)"
    by (rule length_concat_groups)
  then show ?thesis
    by (simp add: hex_def hex_loop_slices concat_hex_slices length_hex_slices)
qed

text \<open>
  Claim C10. The loop of \<open>hex\<close> terminates on every byte slice: \<open>hex_loop\<close> is a total
  function whose termination proof is the measure \<open>len(x)\<close>, and one iteration on a
  non-empty \<open>x\<close> formats and removes its first \<open>min(16, len(x)) > 0\<close> bytes. The slices it formats are
  consecutive pieces of the input (their concatenation is the input, so every byte is
  formatted exactly once), each has between 1 and 16 bytes, every slice but the last has
  exactly 16, there are \<open>ceil(len(x)/16)\<close> of them, and the result is the concatenation
  of the formatted slices.
\<close>

theorem hex_partitions_input:
  "hex x = concat (map fprintf_group (hex_slices x))
   \<and> concat (hex_slices x) = x
   \<and> (\<forall>g \<in> set (hex_slices x). 0 < length g \<and> length g \<le> 16)
   \<and> (\<forall>i. Suc i < length (hex_slices x) \<longrightarrow> length (hex_slices x ! i) = 16)
   \<and> length (hex_slices x) = (length x + 15) div 16
   \<and> length (hex x) = 3 * length x + 2 * length (hex_slices x)
   \<and> (x \<noteq> [] \<longrightarrow> 0 < min 16 (length x)
        \<and> hex_slices x = take (min 16 (length x)) x # hex_slices (drop (min 16 (length x)) x)
        \<and> length (drop (min 16 (length x)) x) < length x)"
proof -
  have "hex x = concat (map fprintf_group (hex_slices x))"
    by (simp add: hex_def hex_loop_slices)
  moreover have "\<forall>g \<in> set (hex_slices x). 0 < length g \<and> length g \<le> 16"
    using hex_slices_bounds by blast
  moreover have "\<forall>i. Suc i < length (hex_slices x) \<longrightarrow> length (hex_slices x ! i) = 16"
    using hex_slices_full by blast
  moreover have "length (hex x) = 3 * length x + 2 * length (hex_slices x)"
    by (simp add: length_hex length_hex_slices)
  moreover have "x \<noteq> [] \<longrightarrow> 0 < min 16 (length x)
        \<and> hex_slices x = take (min 16 (length x)) x # hex_slices (drop (min 16 (length x)) x)
        \<and> length (drop (min 16 (length x)) x) < length x"
  proof
    assume ne: "x \<noteq> []"
    have n: "(if length x > 16 then 16 else length x) = min 16 (length x)"
      by simp
    from ne have "hex_slices x
        = take (min 16 (length x)) x # hex_slices (drop (min 16 (length x)) x)"
      by (subst hex_slices.simps) (simp add: Let_def n del: min_less_iff_conj)
    moreover from ne have "0 < min 16 (length x)"
      by simp
    moreover from ne have "length (drop (min 16 (length x)) x) < length x"
      by (cases x) auto
    ultimately show "0 < min 16 (length x)
        \<and> hex_slices x = take (min 16 (length x)) x # hex_slices (drop (min 16 (length x)) x)
        \<and> length (drop (min 16 (length x)) x) < length x"
      by blast
  qed
  ultimately show ?thesis
    using concat_hex_slices length_hex_slices by blast
qed

text \<open>
  The theorem at a 17-byte input: one full slice of 16 bytes and a last slice of one
  byte, each formatted once.
\<close>

theorem hex_partitions_input_witness:
  "[255] \<in> set (hex_slices [0,1,2,3,4,5,6,7,8,9,10,11,12,13,14,15,255])
   \<and> Suc 0 < length (hex_slices [0,1,2,3,4,5,6,7,8,9,10,11,12,13,14,15,255])
   \<and> length (hex_slices [0,1,2,3,4,5,6,7,8,9,10,11,12,13,14,15,255] ! 0) = 16
   \<and> length (hex [0,1,2,3,4,5,6,7,8,9,10,11,12,13,14,15,255]) = 55
   \<and> hex [0,1,2,3,4,5,6,7,8,9,10,11,12,13,14,15,255]
       = '' . 00 01 02 03 04 05 06 07 08 09 0a 0b 0c 0d 0e 0f . ff''"
proof -
  have s: "hex_slices [0,1,2,3,4,5,6,7,8,9,10,11,12,13,14,15,255]
      = [[0,1,2,3,4,5,6,7,8,9,10,11,12,13,14,15], [255]]"
    by (simp add: hex_slices.simps)
  have h: "hex [0,1,2,3,4,5,6,7,8,9,10,11,12,13,14,15,255]
      = concat (map fprintf_group (hex_slices [0,1,2,3,4,5,6,7,8,9,10,11,12,13,14,15,255]))"
    using hex_partitions_input [of "[0,1,2,3,4,5,6,7,8,9,10,11,12,13,14,15,255]"]
    by blast
  have f: "concat (map fprintf_group [[0,1,2,3,4,5,6,7,8,9,10,11,12,13,14,15], [255]])
      = '' . 00 01 02 03 04 05 06 07 08 09 0a 0b 0c 0d 0e 0f . ff''"
    by (simp add: fprintf_group_def hex_byte_def hex_digit_def)
  have r: "hex [0,1,2,3,4,5,6,7,8,9,10,11,12,13,14,15,255]
      = '' . 00 01 02 03 04 05 06 07 08 09 0a 0b 0c 0d 0e 0f . ff''"
    using h s f by simp
  show ?thesis
    using s by (simp add: r)
qed

section \<open>Opaque RGBA pixels read as NRGBA\<close>

text \<open>At alpha \<open>0xff\<close> the premultiplication of \<open>color.NRGBA\<close> is the identity.\<close>

lemma take_bit_widen: "take_bit 16 (widen c) = widen c"
  by (rule bit_eqI) (auto simp add: widen_def Let_def bit_simps dest: bit_imp_le_length)

lemma unat_widen_less: "unat (widen c) < 65536"
proof -
  have "unat (take_bit 16 (widen c)) < 2 ^ 16"
    using take_bit_nat_less_exp [of 16 "unat (widen c)"]
    by (simp add: unsigned_take_bit_eq)
  then show ?thesis
    by (simp add: take_bit_widen)
qed

lemma div_mult_ff:
  fixes w :: "32 word"
  assumes "unat w < 65536"
  shows "(w * 0xff) div 0xff = w"
proof -
  have "unat w * unat (0xff :: 32 word) < 2 ^ LENGTH(32)"
    using assms by simp
  then have "unat (w * 0xff) = unat w * 255"
    by (simp add: unat_mult_lem [THEN iffD1])
  then have "unat ((w * 0xff) div 0xff) = unat w"
    by (simp add: unat_div)
  then show ?thesis
    by (simp add: word_unat_eq_iff)
qed

lemma premultiply_opaque: "premultiply c 0xff = widen c"
  using div_mult_ff [OF unat_widen_less [of c]]
  by (simp add: premultiply_def Let_def)

lemma opaque_row_True:
  "opaque_row pix i i1 = Inr True \<Longrightarrow> i \<le> j \<Longrightarrow> j < i1 \<Longrightarrow> (j - i) mod 4 = 0 \<Longrightarrow>
   0 \<le> j \<and> j < int (length pix) \<and> pix ! nat j = 0xff"
proof (induction pix i i1 rule: opaque_row.induct)
  case (1 pix i i1)
  from "1.prems" have lt: "i < i1" by simp
  from "1.prems"(1) lt have rng: "0 \<le> i \<and> i < int (length pix)"
    by (subst (asm) opaque_row.simps) (simp split: if_splits)
  from "1.prems"(1) lt rng have here: "pix ! nat i = 0xff"
    by (subst (asm) opaque_row.simps) (simp split: if_splits)
  from "1.prems"(1) lt rng here have rest: "opaque_row pix (i + 4) i1 = Inr True"
    by (subst (asm) opaque_row.simps) simp
  show ?case
  proof (cases "j = i")
    case True
    with rng here show ?thesis by simp
  next
    case False
    with "1.prems" have "i + 4 \<le> j" "(j - (i + 4)) mod 4 = 0"
      by presburger+
    with "1.IH" [OF lt rng _ rest] here "1.prems"(3) show ?thesis
      by simp
  qed
qed

lemma opaque_rows_True:
  "opaque_rows pix stride y max_y i0 i1 = Inr True \<Longrightarrow> y \<le> y' \<Longrightarrow> y' < max_y \<Longrightarrow>
   opaque_row pix (i0 + (y' - y) * stride) (i1 + (y' - y) * stride) = Inr True"
proof (induction pix stride y max_y i0 i1 rule: opaque_rows.induct)
  case (1 pix stride y max_y i0 i1)
  from "1.prems" have lt: "y < max_y" by simp
  from "1.prems"(1) lt have row: "opaque_row pix i0 i1 = Inr True"
    by (subst (asm) opaque_rows.simps) (simp split: sum.splits bool.splits)
  from "1.prems"(1) lt row
  have rest: "opaque_rows pix stride (y + 1) max_y (i0 + stride) (i1 + stride) = Inr True"
    by (subst (asm) opaque_rows.simps) simp
  show ?case
  proof (cases "y' = y")
    case True
    with row show ?thesis by simp
  next
    case False
    with "1.prems" have "y + 1 \<le> y'" by simp
    from "1.IH" [OF lt row refl rest this "1.prems"(3)]
    show ?thesis
      by (simp add: algebra_simps)
  qed
qed

lemma Opaque_alpha:
  assumes "Opaque p = Inr True" and "In \<lparr>X = x, Y = y\<rparr> (Rect p)"
  shows "0 \<le> PixOffset p x y + 3 \<and> PixOffset p x y + 3 < int (length (Pix p))
         \<and> Pix p ! nat (PixOffset p x y + 3) = 0xff"
proof -
  let ?r = "Rect p"
  let ?k = "y - Y (MinP ?r)"
  from assms(2) have ne: "\<not> Empty ?r"
    by (auto simp: In_def Empty_def)
  with assms(1) have
    "opaque_rows (Pix p) (Stride p) (Y (MinP ?r)) (Y (MaxP ?r)) 3 (Dx ?r * 4) = Inr True"
    by (simp add: Opaque_def)
  moreover from assms(2) have "Y (MinP ?r) \<le> y" "y < Y (MaxP ?r)"
    by (auto simp: In_def)
  ultimately have row:
    "opaque_row (Pix p) (3 + ?k * Stride p) (Dx ?r * 4 + ?k * Stride p) = Inr True"
    by (rule opaque_rows_True)
  from assms(2) have "3 + ?k * Stride p \<le> PixOffset p x y + 3"
    "PixOffset p x y + 3 < Dx ?r * 4 + ?k * Stride p"
    "(PixOffset p x y + 3 - (3 + ?k * Stride p)) mod 4 = 0"
    by (auto simp: In_def PixOffset_def Dx_def)
  with row show ?thesis
    by (rule opaque_row_True)
qed

lemma colour_at_opaque:
  assumes "Opaque p = Inr True"
  shows "colour_at (NRGBA p) x y = colour_at (RGBA p) x y"
proof (cases "In \<lparr>X = x, Y = y\<rparr> (Rect p)")
  case False
  then show ?thesis
    by (simp add: colour_at_def widen_def premultiply_def)
next
  case True
  show ?thesis
  proof (cases "pix4 (Pix p) (PixOffset p x y)")
    case (Inl e)
    with True show ?thesis
      by (simp add: colour_at_def)
  next
    case (Inr q)
    obtain r g b a where q: "q = (r, g, b, a)"
      by (cases q) auto
    from Inr q have "a = Pix p ! nat (PixOffset p x y + 3)"
      by (auto simp: pix4_def split: if_splits)
    with Opaque_alpha [OF assms True] have "a = 0xff"
      by simp
    with True Inr q show ?thesis
      by (simp add: colour_at_def premultiply_opaque)
  qed
qed

lemma nonopaque_colours_differ:
  "colour_at (NRGBA \<lparr>Pix = [1, 2, 3, 128], Stride = 4,
       Rect = \<lparr>MinP = \<lparr>X = 0, Y = 0\<rparr>, MaxP = \<lparr>X = 1, Y = 1\<rparr>\<rparr>\<rparr>) 0 0
   \<noteq> colour_at (RGBA \<lparr>Pix = [1, 2, 3, 128], Stride = 4,
       Rect = \<lparr>MinP = \<lparr>X = 0, Y = 0\<rparr>, MaxP = \<lparr>X = 1, Y = 1\<rparr>\<rparr>\<rparr>) 0 0"
  by (simp add: colour_at_def In_def pix4_def PixOffset_def widen_def premultiply_def)

text \<open>
  Claim C9. When \<open>rgba1.Opaque()\<close> returns true (every pixel of the rectangle has
  alpha byte \<open>0xff\<close>), the test's \<open>m1\<close> is the NRGBA image built from the same
  \<open>Pix\<close>, \<open>Stride\<close> and \<open>Rect\<close>, and that image denotes the same colour as the
  RGBA image at every point: \<open>At(x, y).RGBA()\<close> agrees for all \<open>x\<close>, \<open>y\<close>, inside
  and outside the rectangle, including the index panic of a \<open>Pix\<close> that is too short
  for a pixel's first three bytes.
\<close>

theorem opaque_rgba_reinterpreted_as_nrgba:
  assumes "Opaque rgba1 = Inr True"
  shows "reference_nrgba (RGBA rgba1)
           = Inr (NRGBA \<lparr>Pix = Pix rgba1, Stride = Stride rgba1, Rect = Rect rgba1\<rparr>)
         \<and> (\<forall>x y. colour_at (NRGBA \<lparr>Pix = Pix rgba1, Stride = Stride rgba1, Rect = Rect rgba1\<rparr>) x y
                  = colour_at (RGBA rgba1) x y)"
proof -
  have same: "\<lparr>Pix = Pix rgba1, Stride = Stride rgba1, Rect = Rect rgba1\<rparr> = rgba1"
    by simp
  have "reference_nrgba (RGBA rgba1) = Inr (NRGBA rgba1)"
    using assms by (simp add: reference_nrgba_def)
  moreover have "\<forall>x y. colour_at (NRGBA rgba1) x y = colour_at (RGBA rgba1) x y"
    using colour_at_opaque [OF assms] by blast
  ultimately show ?thesis
    unfolding same by blast
qed

text \<open>
  The theorem at a 2 by 1 opaque image: \<open>Opaque\<close> returns true, and the second pixel
  reads as the same colour either way.
\<close>

theorem opaque_rgba_reinterpreted_as_nrgba_witness:
  "Opaque \<lparr>Pix = [1, 2, 3, 255, 4, 5, 6, 255], Stride = 8,
       Rect = \<lparr>MinP = \<lparr>X = 0, Y = 0\<rparr>, MaxP = \<lparr>X = 2, Y = 1\<rparr>\<rparr>\<rparr> = Inr True
   \<and> colour_at (NRGBA \<lparr>Pix = [1, 2, 3, 255, 4, 5, 6, 255], Stride = 8,
       Rect = \<lparr>MinP = \<lparr>X = 0, Y = 0\<rparr>, MaxP = \<lparr>X = 2, Y = 1\<rparr>\<rparr>\<rparr>) 1 0
     = colour_at (RGBA \<lparr>Pix = [1, 2, 3, 255, 4, 5, 6, 255], Stride = 8,
       Rect = \<lparr>MinP = \<lparr>X = 0, Y = 0\<rparr>, MaxP = \<lparr>X = 2, Y = 1\<rparr>\<rparr>\<rparr>) 1 0
   \<and> colour_at (RGBA \<lparr>Pix = [1, 2, 3, 255, 4, 5, 6, 255], Stride = 8,
       Rect = \<lparr>MinP = \<lparr>X = 0, Y = 0\<rparr>, MaxP = \<lparr>X = 2, Y = 1\<rparr>\<rparr>\<rparr>) 1 0
     = Inr (0x0404, 0x0505, 0x0606, 0xffff)"
proof -
  let ?w = "\<lparr>Pix = [1, 2, 3, 255, 4, 5, 6, 255], Stride = 8,
       Rect = \<lparr>MinP = \<lparr>X = 0, Y = 0\<rparr>, MaxP = \<lparr>X = 2, Y = 1\<rparr>\<rparr>\<rparr>"
  have o: "Opaque ?w = Inr True"
    by (simp add: Opaque_def Empty_def Dx_def opaque_rows.simps opaque_row.simps)
  have c: "colour_at (RGBA ?w) 1 0 = Inr (0x0404, 0x0505, 0x0606, 0xffff)"
    by (simp add: colour_at_def In_def pix4_def PixOffset_def widen_def)
  from opaque_rgba_reinterpreted_as_nrgba [OF o]
  have "colour_at (NRGBA ?w) 1 0 = colour_at (RGBA ?w) 1 0"
    by simp
  with o c show ?thesis
    by simp
qed

section \<open>Malformed containers\<close>

lemma read_bytes_in_bounds:
  "read_bytes n src = Some (got, rest) \<Longrightarrow> length got = n \<and> got @ rest = src"
  by (auto simp: read_bytes_def split: if_splits)












end
